theory Spec2Isabelle
  imports Main "HOL-Library.Word"
begin

unbundle bit_operations_syntax

section \<open>The transposition table of tt.cpp\<close>

subsection \<open>Types\<close>

text \<open>
  \<open>Key\<close> is \<open>uint64_t\<close>; \<open>size_t\<close> is taken at its 64-bit width. \<open>Value\<close>, \<open>Depth\<close>
  and \<open>Move\<close> are C++ enums over \<open>int\<close>: tt.cpp only narrows them with casts and divides a
  depth by \<open>ONE_PLY\<close>, so they are integers here and every cast is written out.
\<close>

type_synonym Key = "64 word"
type_synonym size_t = "64 word"
type_synonym Value = int
type_synonym Depth = int
type_synonym Move = int

datatype Bound = BOUND_NONE | BOUND_UPPER | BOUND_LOWER | BOUND_EXACT

text \<open>
  Modelled from the spec: \<open>enum Bound\<close> is declared in types.h, which is not among the
  sources. The data model keeps the bound kind in the low 2 bits of the \<open>genBound\<close> byte;
  the codes are the two-bit values with \<open>BOUND_EXACT = BOUND_UPPER | BOUND_LOWER\<close>.
\<close>

fun Bound_code :: "Bound \<Rightarrow> 8 word" where
  "Bound_code BOUND_NONE = 0"
| "Bound_code BOUND_UPPER = 1"
| "Bound_code BOUND_LOWER = 2"
| "Bound_code BOUND_EXACT = 3"

definition Bound_of :: "8 word \<Rightarrow> Bound" where
  "Bound_of w =
     (if w = 0 then BOUND_NONE else if w = 1 then BOUND_UPPER
      else if w = 2 then BOUND_LOWER else BOUND_EXACT)"

text \<open>
  The fields of \<open>TTEntry\<close> as \<open>TTEntry::save\<close> writes them: \<open>uint16_t key16\<close>,
  \<open>uint16_t move16\<close>, \<open>int16_t value16\<close>, \<open>uint8_t genBound8\<close>, \<open>int8_t depth8\<close>
  (signed fields are read with \<open>sint\<close>). Together they are 8 bytes.
\<close>

record TTEntry =
  key16 :: "16 word"
  move16 :: "16 word"
  value16 :: "16 word"
  genBound8 :: "8 word"
  depth8 :: "8 word"

text \<open>
  The members of \<open>TranspositionTable\<close> that tt.cpp uses. \<open>table\<close> is the array of entries
  behind the aligned pointer; an index into it stands for a \<open>TTEntry*\<close>.
\<close>

record TranspositionTable =
  entryCount :: nat
  table :: "TTEntry list"
  generation8 :: "8 word"

text \<open>
  How a call ends: it returns; the process exits with a status and a text on the error
  stream; an \<open>assert\<close> fails and aborts the process; \<open>std::terminate\<close> ends the process;
  a \<open>std::system_error\<close> leaves the call, which tt.cpp never catches; or an entry outside
  the array is touched (undefined behaviour in C++, kept apart here).
\<close>

datatype 'a outcome =
    Return 'a
  | Exit int string
  | AssertionFailure
  | Terminate
  | SystemError
  | OutOfBounds

fun outcome_bind :: "'a outcome \<Rightarrow> ('a \<Rightarrow> 'b outcome) \<Rightarrow> 'b outcome" where
  "outcome_bind (Return x) f = f x"
| "outcome_bind (Exit c s) f = Exit c s"
| "outcome_bind AssertionFailure f = AssertionFailure"
| "outcome_bind Terminate f = Terminate"
| "outcome_bind SystemError f = SystemError"
| "outcome_bind OutOfBounds f = OutOfBounds"

subsection \<open>Accessors of an entry\<close>

text \<open>
  Modelled from the spec: the accessors \<open>value()\<close>, \<open>depth()\<close>, \<open>move()\<close> and \<open>bound()\<close>
  are declared in tt.h, which is not among the sources. The caller reads value, bound,
  depth and move from the entry: the value is the signed 16-bit field, the move the
  unsigned 16-bit field, the depth the signed 8-bit field in whole plies (times the ply
  unit), the bound kind the low 2 bits of \<open>genBound8\<close>.
\<close>

definition TTEntry_value :: "TTEntry \<Rightarrow> Value" where
  "TTEntry_value e = sint (value16 e)"

definition TTEntry_move :: "TTEntry \<Rightarrow> Move" where
  "TTEntry_move e = uint (move16 e)"

definition TTEntry_depth :: "int \<Rightarrow> TTEntry \<Rightarrow> Depth" where
  "TTEntry_depth ONE_PLY e = sint (depth8 e) * ONE_PLY"

definition TTEntry_bound :: "TTEntry \<Rightarrow> Bound" where
  "TTEntry_bound e = Bound_of (genBound8 e AND 3)"

subsection \<open>TTEntry::save\<close>

text \<open>C++ integer division truncates towards zero.\<close>

definition cdiv :: "int \<Rightarrow> int \<Rightarrow> int" where
  "cdiv a b = sgn a * sgn b * (\<bar>a\<bar> div \<bar>b\<bar>)"

text \<open>
  \<open>save\<close> on one entry. \<open>ONE_PLY\<close> (types.h) is a parameter, and \<open>gen\<close> is the value of
  the global \<open>TT.generation8\<close> that the method reads. The \<open>assert\<close> is a branch of its own.
\<close>

definition save ::
  "int \<Rightarrow> 8 word \<Rightarrow> TTEntry \<Rightarrow> Key \<Rightarrow> Value \<Rightarrow> Bound \<Rightarrow> Depth \<Rightarrow> Move \<Rightarrow> TTEntry outcome" where
  "save ONE_PLY gen e k v b d m =
     (if cdiv d ONE_PLY * ONE_PLY \<noteq> d then AssertionFailure
      else
        let e1 = (if m \<noteq> 0 \<or> drop_bit 48 k \<noteq> ucast (key16 e)
                  then e\<lparr>move16 := word_of_int m\<rparr> else e)
        in if drop_bit 48 k \<noteq> ucast (key16 e1)
              \<or> cdiv d ONE_PLY > sint (depth8 e1) - 4
              \<or> b = BOUND_EXACT
           then Return (e1\<lparr>key16 := ucast (drop_bit 48 k),
                           value16 := word_of_int v,
                           genBound8 := gen OR Bound_code b,
                           depth8 := word_of_int (cdiv d ONE_PLY)\<rparr>)
           else Return e1)"

text \<open>
  \<open>save\<close> through a pointer \<open>p\<close> into the table, as the search calls it. The \<open>assert\<close>
  is the first statement of the method and reads no field: it comes before any access
  through the pointer.
\<close>

definition save_at ::
  "int \<Rightarrow> TranspositionTable \<Rightarrow> nat \<Rightarrow> Key \<Rightarrow> Value \<Rightarrow> Bound \<Rightarrow> Depth \<Rightarrow> Move
    \<Rightarrow> TranspositionTable outcome" where
  "save_at ONE_PLY t p k v b d m =
     (if cdiv d ONE_PLY * ONE_PLY \<noteq> d then AssertionFailure
      else if p < length (table t)
      then outcome_bind (save ONE_PLY (generation8 t) (table t ! p) k v b d m)
             (\<lambda>e. Return (t\<lparr>table := (table t)[p := e]\<rparr>))
      else OutOfBounds)"

subsection \<open>TranspositionTable::clear\<close>

definition TTEntry_zero :: TTEntry where
  "TTEntry_zero = \<lparr>key16 = 0, move16 = 0, value16 = 0, genBound8 = 0, depth8 = 0\<rparr>"

text \<open>\<open>std::memset(&table[start], 0, len * sizeof(TTEntry))\<close> on the array.\<close>

definition memset_zero :: "TTEntry list \<Rightarrow> nat \<Rightarrow> nat \<Rightarrow> TTEntry list" where
  "memset_zero tbl start len =
     map (\<lambda>i. if start \<le> i \<and> i < start + len then TTEntry_zero else tbl ! i) [0..<length tbl]"

text \<open>
  The three constants of one worker. \<open>Threads\<close> is the value of \<open>Options["Threads"]\<close>
  (the options are not among the sources), a natural number.
\<close>

definition clear_stride :: "nat \<Rightarrow> nat \<Rightarrow> nat" where
  "clear_stride ec Threads = ec div Threads"

definition clear_start :: "nat \<Rightarrow> nat \<Rightarrow> nat \<Rightarrow> nat" where
  "clear_start ec Threads idx = clear_stride ec Threads * idx"

definition clear_len :: "nat \<Rightarrow> nat \<Rightarrow> nat \<Rightarrow> nat" where
  "clear_len ec Threads idx =
     (if int idx \<noteq> int Threads - 1 then clear_stride ec Threads
      else ec - clear_start ec Threads idx)"

text \<open>The entries worker \<open>idx\<close> zeroes.\<close>

definition clear_slice :: "nat \<Rightarrow> nat \<Rightarrow> nat \<Rightarrow> nat set" where
  "clear_slice ec Threads idx =
     {clear_start ec Threads idx ..< clear_start ec Threads idx + clear_len ec Threads idx}"

text \<open>
  The table as the workers leave it, once all of them have been started and joined. They
  write disjoint parts and are all joined before the method returns, so their effect is
  that of running them one after the other. Binding a worker to a processor, done for
  more than 8 threads, changes nothing in the table.
\<close>

definition clear :: "nat \<Rightarrow> TranspositionTable \<Rightarrow> TranspositionTable" where
  "clear Threads t =
     t\<lparr>table :=
         foldl (\<lambda>tbl idx. memset_zero tbl (clear_start (entryCount t) Threads idx)
                             (clear_len (entryCount t) Threads idx))
           (table t) [0..<Threads]\<rparr>"

text \<open>
  The method \<open>TranspositionTable::clear\<close> as a whole. It starts the workers one by one
  with \<open>threads.emplace_back\<close>, and the constructor of \<open>std::thread\<close> throws
  \<open>std::system_error\<close> when a thread cannot be started; \<open>thread_starts idx\<close> tells whether
  worker \<open>idx\<close> can. tt.cpp has no handler. When the first worker does not start, the
  exception leaves the method. When a later one does not, the workers already started
  are still joinable while the vector is destroyed, and the destructor of a joinable
  \<open>std::thread\<close> calls \<open>std::terminate\<close>. When all start, they are joined and the table is
  the one above.
\<close>

definition TranspositionTable_clear ::
  "(nat \<Rightarrow> bool) \<Rightarrow> nat \<Rightarrow> TranspositionTable \<Rightarrow> TranspositionTable outcome" where
  "TranspositionTable_clear thread_starts Threads t =
     (case find (\<lambda>idx. \<not> thread_starts idx) [0..<Threads] of
        None \<Rightarrow> Return (clear Threads t)
      | Some idx \<Rightarrow> if idx = 0 then SystemError else Terminate)"

subsection \<open>TranspositionTable::probe\<close>

text \<open>
  \<open>entry\<close> is the addressing function \<open>entry(key)\<close> of tt.h, which is not among the
  sources: a parameter, from the entry count and the key to the index of the addressed
  entry. \<open>probe\<close> returns the pointer, the flag \<open>found\<close> and the table, which it writes
  through the pointer although the method is \<open>const\<close>.
\<close>

definition probe ::
  "(nat \<Rightarrow> Key \<Rightarrow> nat) \<Rightarrow> TranspositionTable \<Rightarrow> Key
    \<Rightarrow> (nat \<times> bool \<times> TranspositionTable) outcome" where
  "probe entry t key =
     (let tte = entry (entryCount t) key in
      if \<not> tte < length (table t) then OutOfBounds
      else
        let k16 = (ucast (drop_bit 48 key) :: 16 word);
            e = table t ! tte
        in if key16 e = 0 \<or> key16 e = k16
           then Return (tte, key16 e \<noteq> 0,
                  t\<lparr>table := (table t)
                       [tte := e\<lparr>genBound8 := generation8 t OR Bound_code (TTEntry_bound e)\<rparr>]\<rparr>)
           else Return (tte, False, t))"

subsection \<open>TranspositionTable::hashfull\<close>

definition hashfull :: "TranspositionTable \<Rightarrow> int outcome" where
  "hashfull t =
     (if length (table t) < 1000 then OutOfBounds
      else Return (foldl (\<lambda>cnt i. cnt + (if genBound8 (table t ! i) AND 0xFC = generation8 t
                                           then 1 else 0))
                     0 [0..<1000]))"

subsection \<open>TranspositionTable::resize\<close>

definition sizeof_TTEntry :: size_t where
  "sizeof_TTEntry = 8"

text \<open>
  Modelled from the spec: \<open>CacheLineSize\<close> is declared in a header that is not among the
  sources; a cluster is sized to one hardware cache line, 64 bytes.
\<close>

definition CacheLineSize :: size_t where
  "CacheLineSize = 64"

text \<open>\<open>EXIT_FAILURE\<close> of the C library.\<close>

definition EXIT_FAILURE :: int where
  "EXIT_FAILURE = 1"

text \<open>What \<open>operator<<\<close> prints for an unsigned number.\<close>

fun decimal :: "nat \<Rightarrow> string" where
  "decimal n =
     (if n < 10 then [''0123456789'' ! n]
      else decimal (n div 10) @ [''0123456789'' ! (n mod 10)])"

declare decimal.simps [simp del]

text \<open>Reading a decimal numeral back, to say what number a printed text names.\<close>

definition digits_value :: "string \<Rightarrow> nat" where
  "digits_value s = foldl (\<lambda>a c. 10 * a + (of_char c - 48)) 0 s"

text \<open>
  \<open>resize\<close>. \<open>malloc\<close> is the allocator: asked for a number of bytes it fails (\<open>None\<close>) or
  hands out a block, whose content nobody chose (a function from the index of an entry
  to what lies there). The text goes to \<open>std::cerr\<close>, ended by \<open>std::endl\<close>. The wait for
  the search threads is not part of the model.
\<close>

definition resize ::
  "nat \<Rightarrow> (nat \<Rightarrow> bool) \<Rightarrow> (size_t \<Rightarrow> (nat \<Rightarrow> TTEntry) option) \<Rightarrow> size_t
    \<Rightarrow> TranspositionTable \<Rightarrow> TranspositionTable outcome" where
  "resize Threads thread_starts malloc mbSize t =
     (if CacheLineSize mod sizeof_TTEntry \<noteq> 0 then AssertionFailure
      else
        let ec = mbSize * 1024 * 1024 div sizeof_TTEntry in
        case malloc (ec * sizeof_TTEntry + CacheLineSize - 1) of
          None \<Rightarrow>
            Exit EXIT_FAILURE
              (''Failed to allocate '' @ decimal (unat mbSize)
                 @ ''MB for transposition table.'' @ [CHR 0x0A])
        | Some block \<Rightarrow>
            TranspositionTable_clear thread_starts Threads
              (t\<lparr>entryCount := unat ec, table := map block [0..<unat ec]\<rparr>))"

text \<open>
  Modelled from the spec: \<open>entry(key)\<close> is declared in tt.h, which is not among the
  sources. One addressing of the kind the design describes, a multiply-high-bits mapping
  of the low 32 bits of the key onto the entry count; the examples use it.
\<close>

definition entry_mulhi :: "nat \<Rightarrow> Key \<Rightarrow> nat" where
  "entry_mulhi ec key = unat (ucast key :: 32 word) * ec div 2 ^ 32"

text \<open>
  Modelled from the spec: the cluster and its size are declared in tt.h, which is not
  among the sources. A cluster is a fixed-count, contiguous group of entries, and
  \<open>entry(key)\<close> gives the address of the first entry of the cluster selected for the key
  (the comment above \<open>resize\<close> speaks of clusters of \<open>ClusterSize\<close> entries). The bucket of
  a key is therefore the \<open>ClusterSize\<close> entries from the addressed one on, in scan order.
\<close>

definition bucket ::
  "nat \<Rightarrow> (nat \<Rightarrow> Key \<Rightarrow> nat) \<Rightarrow> TranspositionTable \<Rightarrow> Key \<Rightarrow> TTEntry list" where
  "bucket ClusterSize entry t key =
     take ClusterSize (drop (entry (entryCount t) key) (table t))"

text \<open>
  The replacement rule in the words of the specification, to compare \<open>probe\<close> with: the
  worth of an entry is its stored depth minus 8 times its relative age, the relative age
  is the current generation minus the entry's generation modulo 256, and the victim is
  the first entry of the bucket, in scan order, whose worth no other entry undercuts.
\<close>

definition spec_relative_age :: "8 word \<Rightarrow> TTEntry \<Rightarrow> int" where
  "spec_relative_age gen e = (uint gen - uint (genBound8 e AND 0xFC)) mod 256"

definition spec_worth :: "8 word \<Rightarrow> TTEntry \<Rightarrow> int" where
  "spec_worth gen e = sint (depth8 e) - 8 * spec_relative_age gen e"

fun spec_victim :: "8 word \<Rightarrow> TTEntry list \<Rightarrow> nat" where
  "spec_victim gen [] = 0"
| "spec_victim gen (e # es) =
     (if list_all (\<lambda>e'. spec_worth gen e \<le> spec_worth gen e') es then 0
      else Suc (spec_victim gen es))"

text \<open>
  What the search does around a node: \<open>probe\<close>, \<open>save\<close> through the pointer it got, and
  \<open>probe\<close> again; the result is the flag of the second probe and what the caller reads
  from the entry it returns.
\<close>

definition probe_save_probe ::
  "int \<Rightarrow> (nat \<Rightarrow> Key \<Rightarrow> nat) \<Rightarrow> TranspositionTable \<Rightarrow> Key \<Rightarrow> Value \<Rightarrow> Bound \<Rightarrow> Depth \<Rightarrow> Move
    \<Rightarrow> (bool \<times> Value \<times> Depth \<times> Move) outcome" where
  "probe_save_probe ONE_PLY entry t k v b d m =
     outcome_bind (probe entry t k) (\<lambda>(p, found, t1).
     outcome_bind (save_at ONE_PLY t1 p k v b d m) (\<lambda>t2.
     outcome_bind (probe entry t2 k) (\<lambda>(p', found', t3).
       Return (found', TTEntry_value (table t3 ! p'),
               TTEntry_depth ONE_PLY (table t3 ! p'), TTEntry_move (table t3 ! p')))))"

subsection \<open>The operations together\<close>

text \<open>The calls the table offers to the search, and what each gives back.\<close>

datatype call =
    Resize size_t
  | Clear
  | Probe Key
  | Save nat Key Value Bound Depth Move
  | Hashfull

datatype reply = Done | Probed nat bool | Permill int

definition run ::
  "int \<Rightarrow> nat \<Rightarrow> (nat \<Rightarrow> bool) \<Rightarrow> (size_t \<Rightarrow> (nat \<Rightarrow> TTEntry) option)
    \<Rightarrow> (nat \<Rightarrow> Key \<Rightarrow> nat)
    \<Rightarrow> call \<Rightarrow> TranspositionTable \<Rightarrow> (reply \<times> TranspositionTable) outcome" where
  "run ONE_PLY Threads thread_starts malloc entry c t =
     (case c of
        Resize mbSize \<Rightarrow>
          outcome_bind (resize Threads thread_starts malloc mbSize t)
            (\<lambda>t'. Return (Done, t'))
      | Clear \<Rightarrow>
          outcome_bind (TranspositionTable_clear thread_starts Threads t)
            (\<lambda>t'. Return (Done, t'))
      | Probe key \<Rightarrow>
          outcome_bind (probe entry t key) (\<lambda>(p, found, t'). Return (Probed p found, t'))
      | Save p k v b d m \<Rightarrow>
          outcome_bind (save_at ONE_PLY t p k v b d m) (\<lambda>t'. Return (Done, t'))
      | Hashfull \<Rightarrow>
          outcome_bind (hashfull t) (\<lambda>n. Return (Permill n, t)))"

section \<open>Properties\<close>

subsection \<open>The slices of clear\<close>

lemma stride_mult_le: "clear_stride ec T * T \<le> ec"
  by (simp add: clear_stride_def)

lemma clear_slice_inner:
  assumes "Suc idx < T"
  shows "clear_slice ec T idx = {clear_stride ec T * idx ..< clear_stride ec T * Suc idx}"
proof -
  have "int idx \<noteq> int T - 1" using assms by linarith
  then show ?thesis
    by (simp add: clear_slice_def clear_len_def clear_start_def add.commute)
qed

lemma clear_slice_last:
  assumes "1 \<le> T"
  shows "clear_slice ec T (T - 1) = {clear_stride ec T * (T - 1) ..< ec}"
proof -
  have le: "clear_stride ec T * (T - 1) \<le> ec"
    by (rule order_trans [OF mult_le_mono2 stride_mult_le]) simp
  have "int (T - 1) = int T - 1" using assms by simp
  then show ?thesis using le
    by (simp add: clear_slice_def clear_len_def clear_start_def)
qed

lemma clear_slice_disjoint:
  assumes "i < j" "j < T"
  shows "clear_slice ec T i \<inter> clear_slice ec T j = {}"
proof -
  have "Suc i < T" using assms by simp
  then have si: "clear_slice ec T i = {clear_stride ec T * i ..< clear_stride ec T * Suc i}"
    by (rule clear_slice_inner)
  have "clear_stride ec T * Suc i \<le> clear_stride ec T * j"
    using assms by (intro mult_le_mono2) simp
  then have "\<forall>x \<in> clear_slice ec T j. clear_stride ec T * Suc i \<le> x"
    by (auto simp: clear_slice_def clear_start_def)
  with si show ?thesis by fastforce
qed

lemma clear_slice_cover:
  assumes "1 \<le> T" "x < ec"
  shows "\<exists>idx < T. x \<in> clear_slice ec T idx"
proof (cases "x < clear_stride ec T * (T - 1)")
  case True
  define s where "s = clear_stride ec T"
  have spos: "0 < s" using True by (cases "s = 0") (simp_all add: s_def)
  define i where "i = x div s"
  have "s * i \<le> x" by (simp add: i_def)
  moreover have "x < s * Suc i" using spos by (simp add: i_def dividend_less_times_div)
  moreover have "i < T - 1"
  proof -
    have "x < s * (T - 1)" using True by (simp add: s_def)
    then have "x < (T - 1) * s" by (simp add: mult.commute)
    then show ?thesis using spos by (simp add: i_def div_less_iff_less_mult)
  qed
  ultimately have "Suc i < T" "x \<in> {s * i ..< s * Suc i}" by auto
  then have "i < T" "x \<in> clear_slice ec T i"
    using clear_slice_inner [of i T ec] by (auto simp: s_def)
  then show ?thesis by blast
next
  case False
  then have "x \<in> clear_slice ec T (T - 1)"
    using assms(2) clear_slice_last [OF assms(1), of ec] by auto
  moreover have "T - 1 < T" using assms by simp
  ultimately show ?thesis by blast
qed

lemma clear_slice_bound:
  assumes "idx < T"
  shows "clear_slice ec T idx \<subseteq> {0..<ec}"
proof (cases "Suc idx < T")
  case True
  have "clear_stride ec T * Suc idx \<le> clear_stride ec T * T"
    using True by (intro mult_le_mono2) simp
  then have "clear_stride ec T * Suc idx \<le> ec"
    using stride_mult_le [of ec T] by linarith
  then show ?thesis using clear_slice_inner [OF True, of ec] by auto
next
  case False
  then have "idx = T - 1" "1 \<le> T" using assms by simp_all
  then show ?thesis using clear_slice_last [of T ec] by auto
qed

text \<open>
  C6. For every entry count and every number \<open>T \<ge> 1\<close> of worker threads, the slices of
  \<open>clear\<close> are: for \<open>idx < T - 1\<close> the range from \<open>stride * idx\<close> up to
  \<open>stride * (idx + 1)\<close>, and for the last worker the range from \<open>stride * (T - 1)\<close> up to
  \<open>entryCount\<close>, where \<open>stride = entryCount / T\<close>. They are pairwise disjoint and their
  union is exactly the range from 0 up to \<open>entryCount\<close>.
\<close>

theorem clear_slices_partition:
  assumes "1 \<le> T"
  shows "(\<forall>idx. Suc idx < T \<longrightarrow>
            clear_slice ec T idx = {ec div T * idx ..< ec div T * (idx + 1)})
       \<and> clear_slice ec T (T - 1) = {ec div T * (T - 1) ..< ec}
       \<and> (\<forall>i < T. \<forall>j < T. i \<noteq> j \<longrightarrow> clear_slice ec T i \<inter> clear_slice ec T j = {})
       \<and> (\<Union>idx < T. clear_slice ec T idx) = {0..<ec}"
proof (intro conjI allI impI)
  fix idx assume "Suc idx < T"
  then show "clear_slice ec T idx = {ec div T * idx ..< ec div T * (idx + 1)}"
    using clear_slice_inner [of idx T ec] by (simp add: clear_stride_def)
next
  show "clear_slice ec T (T - 1) = {ec div T * (T - 1) ..< ec}"
    using clear_slice_last [OF assms, of ec] by (simp add: clear_stride_def)
next
  fix i j assume "i < T" "j < T" "i \<noteq> j"
  then consider "i < j" | "j < i" by linarith
  then show "clear_slice ec T i \<inter> clear_slice ec T j = {}"
  proof cases
    case 1
    then show ?thesis using \<open>j < T\<close> by (rule clear_slice_disjoint)
  next
    case 2
    then have "clear_slice ec T j \<inter> clear_slice ec T i = {}"
      using \<open>i < T\<close> by (rule clear_slice_disjoint)
    then show ?thesis by blast
  qed
next
  show "(\<Union>idx < T. clear_slice ec T idx) = {0..<ec}"
  proof
    show "(\<Union>idx < T. clear_slice ec T idx) \<subseteq> {0..<ec}"
      using clear_slice_bound by blast
    show "{0..<ec} \<subseteq> (\<Union>idx < T. clear_slice ec T idx)"
      using clear_slice_cover [OF assms] by fastforce
  qed
qed

theorem clear_slices_partition_witness:
  "(1::nat) \<le> 3
   \<and> clear_slice 10 3 0 = {0..<3} \<and> clear_slice 10 3 1 = {3..<6}
   \<and> clear_slice 10 3 2 = {6..<10}
   \<and> clear_slice 10 3 0 \<inter> clear_slice 10 3 2 = {}
   \<and> (\<Union>idx < 3. clear_slice 10 3 idx) = {0..<10}"
proof -
  have h: "(1::nat) \<le> 3" by simp
  note p = clear_slices_partition [OF h, of 10]
  have "clear_slice 10 3 0 = {0..<3}" "clear_slice 10 3 1 = {3..<6}"
    using p by simp_all
  moreover have "clear_slice 10 3 2 = {6..<10}" using p by simp
  moreover have "clear_slice 10 3 0 \<inter> clear_slice 10 3 2 = {}" using p by simp
  moreover have "(\<Union>idx < 3. clear_slice 10 3 idx) = {0..<10}" using p by blast
  ultimately show ?thesis by simp
qed

subsection \<open>Words\<close>

text \<open>
  \<open>save\<close> compares \<open>k >> 48\<close> with the stored tag as 64-bit numbers, \<open>probe\<close> compares
  the tag with the 16-bit \<open>key >> 48\<close>: the same test.
\<close>

lemma tag_eq: "(drop_bit 48 (k::64 word) = ucast (x::16 word)) \<longleftrightarrow> (x = ucast (drop_bit 48 k))"
proof
  assume "drop_bit 48 k = ucast x"
  then have "ucast (drop_bit 48 k :: 64 word) = (ucast (ucast x :: 64 word) :: 16 word)"
    by simp
  also have "\<dots> = x"
    by (rule bit_eqI) (simp add: bit_simps)
  finally show "x = ucast (drop_bit 48 k)" by simp
next
  assume x: "x = ucast (drop_bit 48 k)"
  show "drop_bit 48 k = ucast x"
  proof (rule bit_eqI)
    fix n
    have "bit k (48 + n) \<Longrightarrow> n < 16"
      using bit_imp_le_length [of k "48 + n"] by simp
    then show "bit (drop_bit 48 k) n = bit (ucast x :: 64 word) n"
      by (auto simp: x bit_simps)
  qed
qed

lemma and3_cases: "(w::8 word) AND 3 = 0 \<or> w AND 3 = 1 \<or> w AND 3 = 2 \<or> w AND 3 = 3"
proof -
  have "unat (w AND 3) \<le> unat (3 :: 8 word)"
    by (rule word_and_le1 [THEN word_le_nat_alt [THEN iffD1]])
  then have "unat (w AND 3) < 4" by simp
  then have "unat (w AND 3) = 0 \<or> unat (w AND 3) = 1 \<or> unat (w AND 3) = 2 \<or> unat (w AND 3) = 3"
    by linarith
  then show ?thesis
    by (auto simp: word_unat_eq_iff)
qed

lemma bound_roundtrip: "Bound_code (Bound_of (w AND 3)) = w AND 3"
  using and3_cases [of w] by (auto simp: Bound_of_def)

subsection \<open>The admission test of save\<close>

text \<open>
  C2 (as amended). For every entry that stores the tag of fingerprint \<open>K\<close> (whatever
  bound it stores, \<open>EXACT\<close> included) with stored depth \<open>sd\<close>, a call
  \<open>save(K, v, b, d, m)\<close> with \<open>b\<close> not \<open>EXACT\<close> and \<open>d\<close> a multiple of the ply unit
  returns, and it leaves the stored value, depth and genBound byte unchanged exactly when
  the new depth in plies is at most \<open>sd - 4\<close>; when it is greater than \<open>sd - 4\<close> the three
  are overwritten with the new value, the new depth and the current generation with the
  new bound.
\<close>

theorem save_same_key_nonexact:
  assumes "drop_bit 48 k = ucast (key16 e)" and "b \<noteq> BOUND_EXACT" and "cdiv d P * P = d"
  shows "\<exists>e'. save P gen e k v b d m = Return e' \<and>
      (if cdiv d P > sint (depth8 e) - 4
       then value16 e' = word_of_int v \<and> depth8 e' = word_of_int (cdiv d P)
            \<and> genBound8 e' = gen OR Bound_code b
       else value16 e' = value16 e \<and> depth8 e' = depth8 e \<and> genBound8 e' = genBound8 e)"
  using assms by (simp add: save_def Let_def)

theorem save_same_key_nonexact_witness:
  "drop_bit 48 (push_bit 48 (1 :: Key)) = ucast (1 :: 16 word)
   \<and> save 1 4 \<lparr>key16 = 1, move16 = 9, value16 = 100, genBound8 = 3, depth8 = 10\<rparr>
         (push_bit 48 1) 7 BOUND_LOWER 6 0
       = Return \<lparr>key16 = 1, move16 = 9, value16 = 100, genBound8 = 3, depth8 = 10\<rparr>
   \<and> save 1 4 \<lparr>key16 = 1, move16 = 9, value16 = 100, genBound8 = 3, depth8 = 10\<rparr>
         (push_bit 48 1) 7 BOUND_LOWER 7 0
       = Return \<lparr>key16 = 1, move16 = 9, value16 = 7, genBound8 = 6, depth8 = 7\<rparr>"
proof -
  let ?e = "\<lparr>key16 = 1, move16 = 9, value16 = 100, genBound8 = 3, depth8 = 10\<rparr>"
  have k: "drop_bit 48 (push_bit 48 (1 :: Key)) = ucast (key16 ?e)" by simp
  have b: "BOUND_LOWER \<noteq> BOUND_EXACT" by simp
  have d6: "cdiv 6 1 * 1 = 6" and d7: "cdiv 7 1 * 1 = 7" by (simp_all add: cdiv_def)
  have c6: "cdiv 6 1 = 6" and c7: "cdiv 7 1 = 7" by (simp_all add: cdiv_def)
  from save_same_key_nonexact [OF k b d6, of 4 7 0]
  obtain e6 where e6: "save 1 4 ?e (push_bit 48 1) 7 BOUND_LOWER 6 0 = Return e6"
    "value16 e6 = 100" "depth8 e6 = 10" "genBound8 e6 = 3"
    by (auto simp: c6)
  from save_same_key_nonexact [OF k b d7, of 4 7 0]
  obtain e7 where e7: "save 1 4 ?e (push_bit 48 1) 7 BOUND_LOWER 7 0 = Return e7"
    "value16 e7 = 7" "depth8 e7 = 7" "genBound8 e7 = 6"
    by (auto simp: c7)
  have "save 1 4 ?e (push_bit 48 1) 7 BOUND_LOWER 6 0 = Return ?e"
    by (simp add: save_def Let_def cdiv_def)
  moreover have "save 1 4 ?e (push_bit 48 1) 7 BOUND_LOWER 7 0
      = Return \<lparr>key16 = 1, move16 = 9, value16 = 7, genBound8 = 6, depth8 = 7\<rparr>"
    using e7 by (simp add: save_def Let_def cdiv_def)
  ultimately show ?thesis using k by simp
qed

text \<open>
  As first stated, claim C2 lets the entry change only when the new depth exceeds the
  stored depth by more than 4 plies. An \<open>EXACT\<close> entry of depth 10 is overwritten by a
  \<open>LOWER\<close> save of the same depth 10.
\<close>

theorem save_nonexact_overwrites_exact:
  "drop_bit 48 (push_bit 48 (1 :: Key)) = ucast (1 :: 16 word)
   \<and> TTEntry_bound \<lparr>key16 = 1, move16 = 9, value16 = 100, genBound8 = 3, depth8 = 10\<rparr>
       = BOUND_EXACT
   \<and> TTEntry_depth 1 \<lparr>key16 = 1, move16 = 9, value16 = 100, genBound8 = 3, depth8 = 10\<rparr>
       = 10
   \<and> \<not> (10 :: int) > 10 + 4
   \<and> save 1 4 \<lparr>key16 = 1, move16 = 9, value16 = 100, genBound8 = 3, depth8 = 10\<rparr>
         (push_bit 48 1) 7 BOUND_LOWER 10 0
       = Return \<lparr>key16 = 1, move16 = 9, value16 = 7, genBound8 = 6, depth8 = 10\<rparr>"
  by (simp add: save_def Let_def cdiv_def TTEntry_bound_def TTEntry_depth_def Bound_of_def)

text \<open>
  C5. For every entry and every call \<open>save(k, v, b, d, m)\<close> with \<open>m\<close> non-null that the
  admission test rejects (same stored tag, new depth in plies at most the stored depth
  minus 4, bound not \<open>EXACT\<close>), the stored move becomes \<open>m\<close> (its 16-bit cast, which reads
  back as \<open>m\<close> for every 16-bit move), while tag, value, depth and genBound byte stay as
  they were.
\<close>

theorem save_rejected_keeps_move:
  assumes "m \<noteq> 0" and "drop_bit 48 k = ucast (key16 e)"
    and "cdiv d P \<le> sint (depth8 e) - 4" and "b \<noteq> BOUND_EXACT" and "cdiv d P * P = d"
  shows "\<exists>e'. save P gen e k v b d m = Return e'
      \<and> move16 e' = word_of_int m
      \<and> (0 \<le> m \<and> m < 65536 \<longrightarrow> TTEntry_move e' = m)
      \<and> key16 e' = key16 e \<and> value16 e' = value16 e
      \<and> depth8 e' = depth8 e \<and> genBound8 e' = genBound8 e"
  using assms by (simp add: save_def Let_def TTEntry_move_def uint_word_of_int)

theorem save_rejected_keeps_move_witness:
  "save 1 4 \<lparr>key16 = 1, move16 = 9, value16 = 100, genBound8 = 3, depth8 = 10\<rparr>
         (push_bit 48 1) 7 BOUND_LOWER 2 77
       = Return \<lparr>key16 = 1, move16 = 77, value16 = 100, genBound8 = 3, depth8 = 10\<rparr>"
proof -
  let ?e = "\<lparr>key16 = 1, move16 = 9, value16 = 100, genBound8 = 3, depth8 = 10\<rparr>"
  have m: "(77 :: int) \<noteq> 0" by simp
  have k: "drop_bit 48 (push_bit 48 (1 :: Key)) = ucast (key16 ?e)" by simp
  have d: "cdiv 2 1 \<le> sint (depth8 ?e) - 4" by (simp add: cdiv_def)
  have b: "BOUND_LOWER \<noteq> BOUND_EXACT" by simp
  have a: "cdiv 2 1 * 1 = 2" by (simp add: cdiv_def)
  from save_rejected_keeps_move [OF m k d b a, of 4 7]
  obtain e' where "save 1 4 ?e (push_bit 48 1) 7 BOUND_LOWER 2 77 = Return e'"
    "move16 e' = 77" "key16 e' = 1" "value16 e' = 100" "depth8 e' = 10" "genBound8 e' = 3"
    by auto
  then show ?thesis by (cases e') simp
qed

subsection \<open>What probe returns and writes\<close>

lemma probe_cases:
  assumes "probe entry t k = Return (p, found, t')"
  shows "p = entry (entryCount t) k \<and> p < length (table t)
     \<and> found = (key16 (table t ! p) \<noteq> 0 \<and> key16 (table t ! p) = ucast (drop_bit 48 k))
     \<and> t' = (if key16 (table t ! p) = 0 \<or> key16 (table t ! p) = ucast (drop_bit 48 k)
             then t\<lparr>table := (table t)[p := (table t ! p)
                     \<lparr>genBound8 := generation8 t OR (genBound8 (table t ! p) AND 3)\<rparr>]\<rparr>
             else t)"
  using assms
  by (auto simp: probe_def Let_def TTEntry_bound_def bound_roundtrip split: if_splits)

lemma probe_Return:
  assumes "entry (entryCount t) k < length (table t)"
  shows "\<exists>found t'. probe entry t k = Return (entry (entryCount t) k, found, t')"
  using assms by (auto simp: probe_def Let_def)

text \<open>
  C4 (as amended). For every fingerprint \<open>k\<close>, if \<open>probe(k)\<close> returns \<open>found = true\<close> then
  the returned entry stores the tag of \<open>k\<close> and the only mutation of the table is that this
  entry's genBound byte becomes the table's current generation OR-ed with the entry's
  bound bits (tag, move, value and depth of every entry unchanged); if it returns
  \<open>found = false\<close> and the addressed entry has a nonzero tag, \<open>probe\<close> mutates no entry at
  all; and if it returns \<open>found = false\<close> on an entry with tag 0, the genBound byte of that
  entry is refreshed in the same way and nothing else changes.
\<close>

theorem probe_frame:
  assumes "probe entry t k = Return (p, found, t')"
  shows "(found \<longrightarrow>
            key16 (table t ! p) = ucast (drop_bit 48 k)
          \<and> t' = t\<lparr>table := (table t)[p := (table t ! p)
                     \<lparr>genBound8 := generation8 t OR (genBound8 (table t ! p) AND 3)\<rparr>]\<rparr>)
       \<and> (\<not> found \<and> key16 (table t ! p) \<noteq> 0 \<longrightarrow> t' = t)
       \<and> (\<not> found \<and> key16 (table t ! p) = 0 \<longrightarrow>
            t' = t\<lparr>table := (table t)[p := (table t ! p)
                     \<lparr>genBound8 := generation8 t OR (genBound8 (table t ! p) AND 3)\<rparr>]\<rparr>)"
  using probe_cases [OF assms] by auto

theorem probe_frame_witness:
  "probe entry_mulhi
     \<lparr>entryCount = 1,
      table = [\<lparr>key16 = 1, move16 = 9, value16 = 50, genBound8 = 3, depth8 = 3\<rparr>],
      generation8 = 8\<rparr> (push_bit 48 1)
     = Return (0, True,
         \<lparr>entryCount = 1,
          table = [\<lparr>key16 = 1, move16 = 9, value16 = 50, genBound8 = 11, depth8 = 3\<rparr>],
          generation8 = 8\<rparr>)"
proof -
  let ?t = "\<lparr>entryCount = 1,
      table = [\<lparr>key16 = 1, move16 = 9, value16 = 50, genBound8 = 3, depth8 = 3\<rparr>],
      generation8 = 8\<rparr>"
  obtain found t' where p: "probe entry_mulhi ?t (push_bit 48 1) = Return (0, found, t')"
    using probe_Return [of entry_mulhi ?t "push_bit 48 1"] by (auto simp: entry_mulhi_def)
  have f: "found"
    using probe_cases [OF p] by simp
  from probe_frame [OF p] f
  have "t' = ?t\<lparr>table := (table ?t)[0 := (table ?t ! 0)
               \<lparr>genBound8 := generation8 ?t OR (genBound8 (table ?t ! 0) AND 3)\<rparr>]\<rparr>"
    by blast
  then show ?thesis using p f by simp
qed

text \<open>
  As first stated, claim C4 lets a probe that returns \<open>found = false\<close> mutate nothing.
  On a zeroed slot it returns \<open>found = false\<close> and has written the generation 4 into
  the slot's genBound byte.
\<close>

theorem probe_miss_on_empty_slot_writes:
  "probe entry_mulhi \<lparr>entryCount = 1, table = [TTEntry_zero], generation8 = 4\<rparr> (push_bit 48 1)
     = Return (0, False, \<lparr>entryCount = 1,
         table = [\<lparr>key16 = 0, move16 = 0, value16 = 0, genBound8 = 4, depth8 = 0\<rparr>],
         generation8 = 4\<rparr>)
   \<and> [\<lparr>key16 = 0, move16 = 0, value16 = 0, genBound8 = 4, depth8 = 0\<rparr>] \<noteq> [TTEntry_zero]"
  by (simp add: probe_def Let_def entry_mulhi_def TTEntry_zero_def TTEntry_bound_def Bound_of_def)


subsection \<open>Save, then probe\<close>

lemma sint16_of_int: "- 32768 \<le> v \<Longrightarrow> v < 32768 \<Longrightarrow> sint (word_of_int v :: 16 word) = v"
  by (simp add: sint_sbintrunc' signed_take_bit_int_eq_self)

lemma sint8_of_int: "- 128 \<le> v \<Longrightarrow> v < 128 \<Longrightarrow> sint (word_of_int v :: 8 word) = v"
  by (simp add: sint_sbintrunc' signed_take_bit_int_eq_self)

lemma uint16_of_int: "0 \<le> m \<Longrightarrow> m < 65536 \<Longrightarrow> uint (word_of_int m :: 16 word) = m"
  by (simp add: uint_word_of_int)

lemma and_not_self: "(a :: 8 word) AND 3 = 0 \<Longrightarrow> a AND 0xFC = a"
proof -
  assume a: "a AND 3 = 0"
  have "(0xFC OR 3 :: 8 word) = - 1" by simp
  then have "a = a AND (0xFC OR 3)" by (simp only: and.right_neutral)
  also have "\<dots> = (a AND 0xFC) OR (a AND 3)" by (simp only: bit.conj_disj_distrib)
  finally show ?thesis using a by simp
qed

lemma refreshed_gen: "(gen :: 8 word) AND 3 = 0 \<Longrightarrow> (gen OR (x AND 3)) AND 0xFC = gen"
proof -
  assume g: "gen AND 3 = 0"
  have "(gen OR (x AND 3)) AND 0xFC = (gen AND 0xFC) OR (x AND (3 AND 0xFC))"
    by (simp only: bit.conj_disj_distrib2 and.assoc)
  also have "\<dots> = gen" using and_not_self [OF g] by simp
  finally show ?thesis .
qed

text \<open>
  C1 (as amended). For every fingerprint \<open>k\<close> whose high 16 bits are not all zero, every
  value \<open>v\<close> that fits the signed 16-bit field, bound \<open>EXACT\<close>, every depth \<open>d\<close> that is a
  multiple of the ply unit and whose number of plies fits the signed 8-bit field, and
  every 16-bit move \<open>m\<close> that is non-null unless the entry addressed by \<open>k\<close> stores another
  tag: \<open>probe(k)\<close>, \<open>save(k, v, EXACT, d, m)\<close> on the entry it returned and \<open>probe(k)\<close>
  again, with no other write in between, return \<open>found = true\<close> and an entry whose
  value, depth and move are exactly \<open>v\<close>, \<open>d\<close> and \<open>m\<close>.
\<close>

theorem probe_save_probe_exact:
  assumes inb: "entry (entryCount t) k < length (table t)"
    and tag: "ucast (drop_bit 48 k) \<noteq> (0 :: 16 word)"
    and mv: "m \<noteq> 0 \<or> key16 (table t ! entry (entryCount t) k) \<noteq> ucast (drop_bit 48 k)"
    and ply: "cdiv d P * P = d"
    and v: "- 32768 \<le> v" "v < 32768"
    and d: "- 128 \<le> cdiv d P" "cdiv d P < 128"
    and m: "0 \<le> m" "m < 65536"
  shows "probe_save_probe P entry t k v BOUND_EXACT d m = Return (True, v, d, m)"
proof -
  define p where "p = entry (entryCount t) k"
  obtain found t1 where p1: "probe entry t k = Return (p, found, t1)"
    using probe_Return [of entry t k, OF inb] by (auto simp: p_def)
  note c1 = probe_cases [OF p1]
  have t1: "entryCount t1 = entryCount t" "generation8 t1 = generation8 t"
    "length (table t1) = length (table t)" "key16 (table t1 ! p) = key16 (table t ! p)"
    using c1 by (auto split: if_splits)
  define e2 where "e2 = \<lparr>key16 = ucast (drop_bit 48 k), move16 = word_of_int m,
     value16 = word_of_int v, genBound8 = generation8 t OR 3, depth8 = word_of_int (cdiv d P)\<rparr>"
  have sv: "save P (generation8 t1) (table t1 ! p) k v BOUND_EXACT d m = Return e2"
    using mv ply t1
    by (cases "table t1 ! p") (auto simp: save_def Let_def e2_def p_def tag_eq)
  define t2 where "t2 = t1\<lparr>table := (table t1)[p := e2]\<rparr>"
  have s2: "save_at P t1 p k v BOUND_EXACT d m = Return t2"
    using inb sv t1 ply by (simp add: save_at_def t2_def p_def)
  have t2: "entry (entryCount t2) k = p" "p < length (table t2)" "table t2 ! p = e2"
    using inb t1 by (simp_all add: t2_def p_def)
  define t3 where "t3 = t2\<lparr>table := (table t2)[p := e2\<lparr>genBound8 := generation8 t2 OR (genBound8 e2 AND 3)\<rparr>]\<rparr>"
  have p3: "probe entry t2 k = Return (p, True, t3)"
    using t2 tag
    by (simp add: probe_def Let_def t3_def e2_def TTEntry_bound_def Bound_of_def)
  have rd: "table t3 ! p = e2\<lparr>genBound8 := generation8 t2 OR (genBound8 e2 AND 3)\<rparr>"
    using t2 by (simp add: t3_def)
  have "TTEntry_value (table t3 ! p) = v" "TTEntry_move (table t3 ! p) = m"
    "TTEntry_depth P (table t3 ! p) = d"
    using v d m ply
    by (simp_all add: rd e2_def TTEntry_value_def TTEntry_move_def TTEntry_depth_def
        sint16_of_int sint8_of_int uint16_of_int)
  then show ?thesis
    by (simp add: probe_save_probe_def p1 s2 p3)
qed

theorem probe_save_probe_exact_witness:
  "probe_save_probe 1 entry_mulhi
     \<lparr>entryCount = 2, table = [TTEntry_zero, TTEntry_zero], generation8 = 4\<rparr>
     0x123456789ABCDEF0 100 BOUND_EXACT 4 77 = Return (True, 100, 4, 77)"
proof -
  let ?t = "\<lparr>entryCount = 2, table = [TTEntry_zero, TTEntry_zero], generation8 = 4\<rparr>"
  let ?k = "0x123456789ABCDEF0 :: Key"
  have inb: "entry_mulhi (entryCount ?t) ?k < length (table ?t)"
    by (simp add: entry_mulhi_def)
  have tag: "ucast (drop_bit 48 ?k) \<noteq> (0 :: 16 word)" by simp
  have mv: "(77 :: int) \<noteq> 0 \<or> key16 (table ?t ! entry_mulhi (entryCount ?t) ?k)
      \<noteq> ucast (drop_bit 48 ?k)" by simp
  have ply: "cdiv 4 1 * 1 = 4" by (simp add: cdiv_def)
  have d: "- 128 \<le> cdiv 4 1" "cdiv 4 1 < 128" by (simp_all add: cdiv_def)
  have v: "- 32768 \<le> (100 :: int)" "(100 :: int) < 32768" by simp_all
  have m: "0 \<le> (77 :: int)" "(77 :: int) < 65536" by simp_all
  show ?thesis
    using probe_save_probe_exact
      [where entry = entry_mulhi and t = "?t" and k = "?k" and m = 77 and d = 4
         and P = 1 and v = 100, OF inb tag mv ply v d m] .
qed

text \<open>
  As first stated, claim C1 speaks of every fingerprint. Tag 0 marks an empty slot:
  after saving under a fingerprint whose high 16 bits are zero, the probe finds the
  value, the depth and the move in the entry and still returns \<open>found = false\<close>.
\<close>

theorem probe_save_probe_zero_tag:
  "probe_save_probe 1 entry_mulhi \<lparr>entryCount = 1, table = [TTEntry_zero], generation8 = 4\<rparr>
     5 100 BOUND_EXACT 4 77 = Return (False, 100, 4, 77)"
  by (simp add: probe_save_probe_def probe_def save_at_def save_def Let_def cdiv_def
      entry_mulhi_def TTEntry_zero_def TTEntry_bound_def Bound_of_def
      TTEntry_value_def TTEntry_move_def TTEntry_depth_def)

text \<open>
  A null move saved over an entry of the same position keeps the move that was there.
\<close>

lemma probe_save_probe_null_move:
  "probe_save_probe 1 entry_mulhi
     \<lparr>entryCount = 1,
      table = [\<lparr>key16 = 1, move16 = 9, value16 = 50, genBound8 = 2, depth8 = 3\<rparr>],
      generation8 = 4\<rparr>
     (push_bit 48 1) 100 BOUND_EXACT 4 0 = Return (True, 100, 4, 9)"
  by (simp add: probe_save_probe_def probe_def save_at_def save_def Let_def cdiv_def
      entry_mulhi_def TTEntry_zero_def TTEntry_bound_def Bound_of_def
      TTEntry_value_def TTEntry_move_def TTEntry_depth_def)

text \<open>
  A value outside the signed 16-bit range is narrowed by the cast, and reads back
  as another value.
\<close>

lemma probe_save_probe_wide_value:
  "probe_save_probe 1 entry_mulhi
     \<lparr>entryCount = 1, table = [TTEntry_zero], generation8 = 4\<rparr>
     (push_bit 48 1) 40000 BOUND_EXACT 4 77 = Return (True, - 25536, 4, 77)"
  by (simp add: probe_save_probe_def probe_def save_at_def save_def Let_def cdiv_def
      entry_mulhi_def TTEntry_zero_def TTEntry_bound_def Bound_of_def
      TTEntry_value_def TTEntry_move_def TTEntry_depth_def)

subsection \<open>clear zeroes the table\<close>

lemma memset_zero_length: "length (memset_zero tbl s l) = length tbl"
  by (simp add: memset_zero_def)

lemma memset_zero_nth:
  "i < length tbl \<Longrightarrow>
     memset_zero tbl s l ! i = (if s \<le> i \<and> i < s + l then TTEntry_zero else tbl ! i)"
  by (simp add: memset_zero_def)

lemma clear_workers:
  fixes ec T :: nat and tbl :: "TTEntry list"
  defines "F \<equiv> \<lambda>n. foldl (\<lambda>tbl idx. memset_zero tbl (clear_start ec T idx) (clear_len ec T idx))
                      tbl [0..<n]"
  shows "length (F n) = length tbl
       \<and> (\<forall>i < length tbl. F n ! i
             = (if \<exists>idx < n. i \<in> clear_slice ec T idx then TTEntry_zero else tbl ! i))"
proof (induction n)
  case 0
  then show ?case by (simp add: F_def)
next
  case (Suc n)
  have step: "F (Suc n) = memset_zero (F n) (clear_start ec T n) (clear_len ec T n)"
    by (simp add: F_def)
  have len: "length (F (Suc n)) = length tbl"
    using Suc by (simp add: step memset_zero_length)
  have "F (Suc n) ! i = (if \<exists>idx < Suc n. i \<in> clear_slice ec T idx then TTEntry_zero else tbl ! i)"
    if i: "i < length tbl" for i
  proof -
    have "F (Suc n) ! i = (if i \<in> clear_slice ec T n then TTEntry_zero else F n ! i)"
      using i Suc by (simp add: step memset_zero_nth clear_slice_def)
    also have "\<dots> = (if \<exists>idx < Suc n. i \<in> clear_slice ec T idx then TTEntry_zero else tbl ! i)"
      using i Suc by (auto simp: less_Suc_eq)
    finally show ?thesis .
  qed
  with len show ?case by blast
qed

lemma clear_table:
  assumes "1 \<le> T" "length (table t) = entryCount t"
  shows "table (clear T t) = replicate (entryCount t) TTEntry_zero"
proof (rule nth_equalityI)
  note w = clear_workers [where tbl = "table t" and ec = "entryCount t" and T = T and n = T]
  show "length (table (clear T t)) = length (replicate (entryCount t) TTEntry_zero)"
    using w assms by (simp add: clear_def)
  fix i assume "i < length (table (clear T t))"
  then have i: "i < entryCount t" using w assms by (simp add: clear_def)
  then have "\<exists>idx < T. i \<in> clear_slice (entryCount t) T idx"
    using clear_slice_cover [OF assms(1)] by blast
  then show "table (clear T t) ! i = replicate (entryCount t) TTEntry_zero ! i"
    using w assms i by (simp add: clear_def)
qed

lemma clear_fields: "entryCount (clear T t) = entryCount t" "generation8 (clear T t) = generation8 t"
  by (simp_all add: clear_def)

subsection \<open>hashfull\<close>

lemma foldl_add_sum: "foldl (\<lambda>cnt i. cnt + g i) (a::int) xs = a + sum_list (map g xs)"
  by (induction xs arbitrary: a) simp_all

lemma count_upt: "foldl (\<lambda>cnt i. cnt + g i) (0::int) [0..<n] = (\<Sum>i = 0..<n. g i)"
  by (simp add: foldl_add_sum interv_sum_list_conv_sum_set_nat)

lemma hashfull_sum:
  assumes "1000 \<le> length (table t)"
  shows "hashfull t = Return (\<Sum>i = 0..<1000.
           if genBound8 (table t ! i) AND 0xFC = generation8 t then 1 else 0)"
proof -
  have "\<not> length (table t) < 1000" using assms by simp
  then show ?thesis
    unfolding hashfull_def by (simp only: count_upt if_False)
qed

lemma hashfull_none:
  assumes "1000 \<le> length (table t)"
    and "\<And>i. i < 1000 \<Longrightarrow> genBound8 (table t ! i) AND 0xFC \<noteq> generation8 t"
  shows "hashfull t = Return 0"
proof -
  have "(\<Sum>i = 0..<1000. if genBound8 (table t ! i) AND 0xFC = generation8 t then 1 else 0)
         = (0::int)"
    by (rule sum.neutral) (simp add: assms(2))
  then show ?thesis by (simp only: hashfull_sum [OF assms(1)])
qed

text \<open>
  C8. For every table of at least 1000 entries (the ones \<open>hashfull\<close> samples) whose
  current generation is nonzero in its high 6 bits, with at least one worker thread
  configured, \<open>clear()\<close> followed by \<open>hashfull()\<close>, with no save or probe in between,
  returns 0.
\<close>

theorem clear_then_hashfull:
  assumes "1 \<le> T" and "length (table t) = entryCount t" and "1000 \<le> entryCount t"
    and "generation8 t AND 0xFC \<noteq> 0"
  shows "hashfull (clear T t) = Return 0"
proof -
  have tb: "table (clear T t) = replicate (entryCount t) TTEntry_zero"
    using assms by (simp add: clear_table)
  have g: "generation8 t \<noteq> 0" using assms(4) by auto
  have "1000 \<le> length (table (clear T t))" using tb assms by simp
  then have "hashfull (clear T t) = Return (\<Sum>i = 0..<1000.
           if genBound8 (table (clear T t) ! i) AND 0xFC = generation8 (clear T t) then 1 else 0)"
    by (rule hashfull_sum)
  also have "(\<Sum>i = 0..<1000.
           if genBound8 (table (clear T t) ! i) AND 0xFC = generation8 (clear T t) then 1 else 0)
         = (0::int)"
  proof (rule sum.neutral, rule ballI)
    fix i :: nat assume "i \<in> {0..<1000}"
    then have "i < entryCount t" using assms(3) by simp
    then show "(if genBound8 (table (clear T t) ! i) AND 0xFC = generation8 (clear T t)
                then 1 else 0) = (0::int)"
      using g by (simp add: tb clear_fields TTEntry_zero_def)
  qed
  finally show ?thesis .
qed

theorem clear_then_hashfull_witness:
  "hashfull (clear 3 \<lparr>entryCount = 1000,
      table = replicate 1000 \<lparr>key16 = 1, move16 = 9, value16 = 50, genBound8 = 5, depth8 = 3\<rparr>,
      generation8 = 4\<rparr>) = Return 0"
  by (rule clear_then_hashfull) simp_all

lemma sum_changed_at:
  fixes g g' :: "nat \<Rightarrow> int"
  assumes "p < n" and "\<And>i. i \<noteq> p \<Longrightarrow> g' i = g i"
  shows "(\<Sum>i = 0..<n. g' i) = (\<Sum>i = 0..<n. g i) + (g' p - g p)"
proof -
  have p: "p \<in> {0..<n}" using assms(1) by simp
  have "(\<Sum>i = 0..<n. g' i) = g' p + (\<Sum>i \<in> {0..<n} - {p}. g' i)"
    using p by (simp add: sum.remove)
  also have "(\<Sum>i \<in> {0..<n} - {p}. g' i) = (\<Sum>i \<in> {0..<n} - {p}. g i)"
    by (rule sum.cong) (simp_all add: assms(2))
  also have "(\<Sum>i = 0..<n. g i) = g p + (\<Sum>i \<in> {0..<n} - {p}. g i)"
    using p by (simp add: sum.remove)
  ultimately show ?thesis by simp
qed

text \<open>
  C9. For every fingerprint \<open>k\<close> whose addressed entry has stored tag 0 (an empty slot),
  in a table whose generation keeps its low 2 bits clear, \<open>probe(k)\<close> returns
  \<open>found = false\<close> and still overwrites that entry's genBound byte with the table's
  current generation (OR-ed with the bound bits that were there, none in a zeroed slot),
  so that the entry now passes the test of \<open>hashfull()\<close>: if it lies among the 1000
  sampled entries, \<open>hashfull()\<close> counts it, one more than before unless it was counted
  already.
\<close>

theorem probe_empty_slot_counted:
  assumes pr: "probe entry t k = Return (p, found, t')"
    and empty: "key16 (table t ! entry (entryCount t) k) = 0"
    and gen: "generation8 t AND 3 = 0"
  shows "\<not> found
       \<and> genBound8 (table t' ! p) = generation8 t OR (genBound8 (table t ! p) AND 3)
       \<and> genBound8 (table t' ! p) AND 0xFC = generation8 t'
       \<and> (p < 1000 \<and> 1000 \<le> length (table t) \<longrightarrow>
            hashfull t' = outcome_bind (hashfull t) (\<lambda>n. Return
              (n + (if genBound8 (table t ! p) AND 0xFC = generation8 t then 0 else 1))))"
proof -
  note c = probe_cases [OF pr]
  define e' where "e' = (table t ! p)\<lparr>genBound8 := generation8 t OR (genBound8 (table t ! p) AND 3)\<rparr>"
  have p: "p = entry (entryCount t) k" "p < length (table t)" and nf: "\<not> found"
    and t': "t' = t\<lparr>table := (table t)[p := e']\<rparr>"
    using c empty by (simp_all add: e'_def)
  have rd: "table t' ! p = e'" using p by (simp add: t')
  have cnt: "genBound8 e' AND 0xFC = generation8 t"
    using refreshed_gen [OF gen] by (simp add: e'_def)
  have hf: "hashfull t' = outcome_bind (hashfull t) (\<lambda>n. Return
              (n + (if genBound8 (table t ! p) AND 0xFC = generation8 t then 0 else 1)))"
    if "p < 1000" "1000 \<le> length (table t)"
  proof -
    let ?g = "\<lambda>i. if genBound8 (table t ! i) AND 0xFC = generation8 t then 1 else (0::int)"
    let ?g' = "\<lambda>i. if genBound8 (table t' ! i) AND 0xFC = generation8 t' then 1 else (0::int)"
    have len: "1000 \<le> length (table t')" using that by (simp add: t')
    have same: "?g' i = ?g i" if "i \<noteq> p" for i
      using that by (simp add: t')
    have "?g' p = 1" using cnt p by (simp add: t')
    then have "(\<Sum>i = 0..<1000. ?g' i) = (\<Sum>i = 0..<1000. ?g i) + (1 - ?g p)"
      using sum_changed_at [of p 1000 ?g' ?g, OF that(1) same] by simp
    then show ?thesis
      by (simp only: hashfull_sum [OF len] hashfull_sum [OF that(2)] outcome_bind.simps)
         (simp split: if_splits)
  qed
  show ?thesis using nf rd cnt hf by (simp add: e'_def t')
qed

theorem probe_empty_slot_counted_witness:
  "\<exists>t'. probe entry_mulhi
            \<lparr>entryCount = 1000, table = replicate 1000 TTEntry_zero, generation8 = 4\<rparr> 5
          = Return (0, False, t')
      \<and> genBound8 (table t' ! 0) = 4
      \<and> hashfull \<lparr>entryCount = 1000, table = replicate 1000 TTEntry_zero, generation8 = 4\<rparr>
          = Return 0
      \<and> hashfull t' = Return 1"
proof -
  let ?t = "\<lparr>entryCount = 1000, table = replicate 1000 TTEntry_zero, generation8 = 4\<rparr>"
  have ix: "entry_mulhi (entryCount ?t) 5 = 0" by (simp add: entry_mulhi_def)
  have z: "table ?t ! 0 = TTEntry_zero" by simp
  obtain found t' where p: "probe entry_mulhi ?t 5 = Return (0, found, t')"
    using probe_Return [of entry_mulhi ?t 5] ix by auto
  have empty: "key16 (table ?t ! entry_mulhi (entryCount ?t) 5) = 0"
    by (simp only: ix z) (simp add: TTEntry_zero_def)
  have gen: "generation8 ?t AND 3 = 0" by simp
  have h0: "hashfull ?t = Return 0"
    by (rule hashfull_none) (simp_all add: TTEntry_zero_def)
  note c = probe_empty_slot_counted [OF p empty gen]
  have "\<not> found" using c by blast
  moreover have "genBound8 (table t' ! 0) = 4"
    using c by (simp add: TTEntry_zero_def)
  moreover have "hashfull t' = Return 1"
    using c h0 by (simp add: TTEntry_zero_def)
  ultimately show ?thesis using p h0 by auto
qed

subsection \<open>The entry a miss returns\<close>

lemma spec_victim_least:
  "es \<noteq> [] \<Longrightarrow>
     spec_victim gen es < length es
   \<and> (\<forall>e \<in> set es. spec_worth gen (es ! spec_victim gen es) \<le> spec_worth gen e)
   \<and> (\<forall>j < spec_victim gen es. spec_worth gen (es ! spec_victim gen es) < spec_worth gen (es ! j))"
proof (induction es)
  case Nil
  then show ?case by simp
next
  case (Cons e es)
  show ?case
  proof (cases "list_all (\<lambda>e'. spec_worth gen e \<le> spec_worth gen e') es")
    case True
    then show ?thesis by (simp add: list_all_iff)
  next
    case False
    then obtain e' where e': "e' \<in> set es" "spec_worth gen e' < spec_worth gen e"
      by (auto simp: list_all_iff not_le)
    then have ne: "es \<noteq> []" by auto
    note ih = Cons.IH [OF ne]
    let ?v = "spec_victim gen es"
    have lt: "spec_worth gen (es ! ?v) < spec_worth gen e"
      using ih e' by force
    have "\<forall>j < Suc ?v. spec_worth gen (es ! ?v) < spec_worth gen ((e # es) ! j)"
    proof (intro allI impI)
      fix j assume "j < Suc ?v"
      then show "spec_worth gen (es ! ?v) < spec_worth gen ((e # es) ! j)"
        using ih lt by (cases j) auto
    qed
    then show ?thesis using False ih lt by auto
  qed
qed

lemma bucket_first:
  assumes "entry (entryCount t) k < length (table t)" and "1 \<le> ClusterSize"
  shows "table t ! entry (entryCount t) k \<in> set (bucket ClusterSize entry t k)"
proof -
  obtain n where n: "ClusterSize = Suc n" using assms(2) by (cases ClusterSize) auto
  have "drop (entry (entryCount t) k) (table t)
          = table t ! entry (entryCount t) k # drop (Suc (entry (entryCount t) k)) (table t)"
    using assms(1) by (simp add: Cons_nth_drop_Suc)
  then show ?thesis by (simp add: bucket_def n)
qed

text \<open>
  On a miss \<open>probe\<close> does return \<open>found = false\<close>, and the entry it returns is always the
  addressed one, the first of the bucket.
\<close>

lemma probe_miss_returns_addressed:
  assumes inb: "entry (entryCount t) k < length (table t)" and cs: "1 \<le> ClusterSize"
    and miss: "\<forall>e \<in> set (bucket ClusterSize entry t k). key16 e \<noteq> ucast (drop_bit 48 k)"
  shows "\<exists>t'. probe entry t k = Return (entry (entryCount t) k, False, t')"
proof -
  have "key16 (table t ! entry (entryCount t) k) \<noteq> ucast (drop_bit 48 k)"
    using miss bucket_first [where entry = entry and t = t and k = k, OF inb cs] by blast
  then show ?thesis using inb by (auto simp: probe_def Let_def)
qed


subsection \<open>clear as a call\<close>

lemma TranspositionTable_clear_cases:
  "TranspositionTable_clear starts T t =
     (if \<forall>idx < T. starts idx then Return (clear T t)
      else if starts 0 then Terminate else SystemError)"
proof (cases "find (\<lambda>idx. \<not> starts idx) [0..<T]")
  case None
  then have "\<forall>idx < T. starts idx" by (auto simp: find_None_iff)
  then show ?thesis using None by (simp add: TranspositionTable_clear_def)
next
  case (Some i)
  then have i: "i < T" "\<not> starts i" "\<forall>j < i. starts j"
    by (auto simp: find_Some_iff)
  then have "\<not> (\<forall>idx < T. starts idx)" by blast
  moreover have "starts 0 \<longleftrightarrow> i \<noteq> 0" using i by (cases "i = 0") auto
  ultimately show ?thesis using Some by (simp add: TranspositionTable_clear_def)
qed

lemma TranspositionTable_clear_Return:
  "TranspositionTable_clear starts T t = Return t' \<longleftrightarrow> (\<forall>idx < T. starts idx) \<and> t' = clear T t"
  by (auto simp: TranspositionTable_clear_cases)

text \<open>
  Whenever the call of \<open>clear\<close> returns, the table is the zeroed one, and \<open>hashfull\<close>
  on it gives 0 under the conditions of C8.
\<close>

lemma clear_call_then_hashfull:
  assumes "TranspositionTable_clear starts T t = Return t'"
    and "1 \<le> T" and "length (table t) = entryCount t" and "1000 \<le> entryCount t"
    and "generation8 t AND 0xFC \<noteq> 0"
  shows "hashfull t' = Return 0"
proof -
  have t': "t' = clear T t" using assms(1) by (simp add: TranspositionTable_clear_Return)
  have tb: "table (clear T t) = replicate (entryCount t) TTEntry_zero"
    using assms(2,3) by (simp add: clear_table)
  have g: "generation8 t \<noteq> 0" using assms(5) by auto
  show ?thesis
  proof (rule hashfull_none)
    show "1000 \<le> length (table t')" using assms(4) by (simp add: t' tb)
    fix i :: nat assume "i < 1000"
    then have "i < entryCount t" using assms(4) by simp
    then show "genBound8 (table t' ! i) AND 0xFC \<noteq> generation8 t'"
      using g by (simp add: t' tb clear_fields TTEntry_zero_def)
  qed
qed

subsection \<open>resize\<close>

lemma unat_megabytes:
  assumes "unat (mbSize :: size_t) * 2 ^ 20 < 2 ^ 64"
  shows "unat (mbSize * 1024 * 1024 div 8) = unat mbSize * 2 ^ 20 div 8"
proof -
  have "unat (mbSize * 2 ^ 20) = unat mbSize * unat (2 ^ 20 :: size_t)"
    using assms by (subst unat_mult_lem [THEN iffD1]) simp_all
  then have "unat (mbSize * 1048576) = unat mbSize * 1048576" by simp
  then have "unat (mbSize * 1048576 div 8) = unat mbSize * 1048576 div 8"
    by (simp add: unat_div)
  moreover have "mbSize * 1024 * 1024 = mbSize * 1048576" by simp
  ultimately show ?thesis by (simp only: ) simp
qed

text \<open>
  C7 (as amended). For every megabyte size \<open>m\<close> whose byte count \<open>m * 2^20\<close> fits
  \<open>size_t\<close> (is below \<open>2^64\<close>, that is \<open>m < 2^44\<close>), after a successful \<open>resize(m)\<close> the
  table's \<open>entryCount\<close> is \<open>m * 2^20\<close> divided by the size of an entry, rounded down; in
  particular, with the 8-byte entry, \<open>resize(1)\<close> gives 131072 entries.
\<close>

theorem resize_entryCount:
  assumes "resize T starts malloc mbSize t = Return t'" and "unat mbSize * 2 ^ 20 < 2 ^ 64"
  shows "entryCount t' = unat mbSize * 2 ^ 20 div unat sizeof_TTEntry"
proof -
  obtain block where "t' = clear T (t\<lparr>entryCount := unat (mbSize * 1024 * 1024 div 8),
             table := map block [0..<unat (mbSize * 1024 * 1024 div 8)]\<rparr>)"
    using assms(1)
    by (auto simp: resize_def sizeof_TTEntry_def CacheLineSize_def Let_def
          TranspositionTable_clear_Return split: option.splits)
  then have "entryCount t' = unat (mbSize * 1024 * 1024 div 8)"
    by (simp add: clear_fields)
  then show ?thesis
    by (simp only: unat_megabytes [OF assms(2)]) (simp add: sizeof_TTEntry_def)
qed

lemma resize_Return:
  assumes "malloc (mbSize * 1024 * 1024 div sizeof_TTEntry * sizeof_TTEntry + CacheLineSize - 1)
             = Some block"
    and "\<forall>idx < T. starts idx"
  shows "\<exists>t'. resize T starts malloc mbSize t = Return t'"
  using assms
  by (simp add: resize_def sizeof_TTEntry_def CacheLineSize_def Let_def
      TranspositionTable_clear_cases)

theorem resize_entryCount_witness:
  "\<exists>t'. resize 2 (\<lambda>idx. True)
            (\<lambda>n. if n \<le> 1073741824 then Some (\<lambda>i. TTEntry_zero) else None) 1
            \<lparr>entryCount = 0, table = [], generation8 = 0\<rparr> = Return t'
      \<and> entryCount t' = 131072"
proof -
  let ?malloc = "\<lambda>n :: size_t. if n \<le> 1073741824 then Some (\<lambda>i :: nat. TTEntry_zero) else None"
  let ?t = "\<lparr>entryCount = 0, table = [], generation8 = 0\<rparr>"
  have "?malloc (1 * 1024 * 1024 div sizeof_TTEntry * sizeof_TTEntry + CacheLineSize - 1)
          = Some (\<lambda>i. TTEntry_zero)"
    by (simp add: sizeof_TTEntry_def CacheLineSize_def)
  then obtain t' where r: "resize 2 (\<lambda>idx. True) ?malloc 1 ?t = Return t'"
    using resize_Return
      [where malloc = ?malloc and mbSize = 1 and block = "\<lambda>i. TTEntry_zero" and T = 2
         and starts = "\<lambda>idx. True" and t = ?t]
    by blast
  have small: "unat (1 :: size_t) * 2 ^ 20 < 2 ^ 64" by simp
  have "entryCount t' = 131072"
    using resize_entryCount [OF r small] by (simp add: sizeof_TTEntry_def)
  with r show ?thesis by blast
qed

text \<open>
  As first stated, claim C7 speaks of every size. The product \<open>mbSize * 1024 * 1024\<close>
  is computed in \<open>size_t\<close>: for \<open>2^44\<close> megabytes it wraps around to 0, the 63 bytes then
  asked for are granted, and the resize succeeds with no entry at all instead of \<open>2^61\<close>.
\<close>

theorem resize_wraps_around:
  "resize 1 (\<lambda>idx. True)
      (\<lambda>n. if n \<le> 1073741824 then Some (\<lambda>i. TTEntry_zero) else None) 17592186044416
      \<lparr>entryCount = 0, table = [], generation8 = 0\<rparr>
     = Return \<lparr>entryCount = 0, table = [], generation8 = 0\<rparr>
   \<and> unat (17592186044416 :: size_t) * 2 ^ 20 div unat sizeof_TTEntry = 2305843009213693952"
  by (simp add: resize_def sizeof_TTEntry_def CacheLineSize_def Let_def
      TranspositionTable_clear_cases clear_def memset_zero_def)

subsection \<open>How the operations end\<close>

lemma digit_char: "d < 10 \<Longrightarrow> of_char (''0123456789'' ! d) = (48 + d :: nat)"
proof -
  assume "d < 10"
  then have "d = 0 \<or> d = 1 \<or> d = 2 \<or> d = 3 \<or> d = 4 \<or> d = 5 \<or> d = 6 \<or> d = 7 \<or> d = 8 \<or> d = 9"
    by presburger
  then show ?thesis by (elim disjE) simp_all
qed

lemma digits_value_snoc: "digits_value (s @ [c]) = 10 * digits_value s + (of_char c - 48)"
  by (simp add: digits_value_def)

lemma digits_value_decimal: "digits_value (decimal n) = n"
proof (induction n rule: decimal.induct)
  case (1 n)
  show ?case
  proof (cases "n < 10")
    case True
    then show ?thesis
      by (subst decimal.simps) (simp add: digits_value_def digit_char)
  next
    case False
    then have "digits_value (decimal n)
        = 10 * digits_value (decimal (n div 10)) + (of_char (''0123456789'' ! (n mod 10)) - 48)"
      by (subst decimal.simps) (simp only: if_False digits_value_snoc)
    also have "\<dots> = 10 * (n div 10) + n mod 10"
      using "1.IH" [OF False] by (simp add: digit_char)
    finally show ?thesis by simp
  qed
qed

lemma resize_outcome:
  "resize T starts malloc mbSize t \<noteq> AssertionFailure"
  "resize T starts malloc mbSize t \<noteq> OutOfBounds"
  "resize T starts malloc mbSize t = Exit code msg \<longleftrightarrow>
     malloc (mbSize * 1024 * 1024 div sizeof_TTEntry * sizeof_TTEntry + CacheLineSize - 1) = None
     \<and> code = EXIT_FAILURE
     \<and> msg = ''Failed to allocate '' @ decimal (unat mbSize)
               @ ''MB for transposition table.'' @ [CHR 0x0A]"
  "resize T starts malloc mbSize t = Terminate \<longleftrightarrow>
     malloc (mbSize * 1024 * 1024 div sizeof_TTEntry * sizeof_TTEntry + CacheLineSize - 1) \<noteq> None
     \<and> (\<exists>idx < T. \<not> starts idx) \<and> starts 0"
  "resize T starts malloc mbSize t = SystemError \<longleftrightarrow>
     malloc (mbSize * 1024 * 1024 div sizeof_TTEntry * sizeof_TTEntry + CacheLineSize - 1) \<noteq> None
     \<and> 0 < T \<and> \<not> starts 0"
  by (auto simp: resize_def sizeof_TTEntry_def CacheLineSize_def Let_def
        TranspositionTable_clear_cases split: option.splits)

lemma clear_outcome:
  "TranspositionTable_clear starts T t \<noteq> Exit code msg"
  "TranspositionTable_clear starts T t \<noteq> AssertionFailure"
  "TranspositionTable_clear starts T t \<noteq> OutOfBounds"
  "TranspositionTable_clear starts T t = Terminate \<longleftrightarrow> (\<exists>idx < T. \<not> starts idx) \<and> starts 0"
  "TranspositionTable_clear starts T t = SystemError \<longleftrightarrow> 0 < T \<and> \<not> starts 0"
  by (auto simp: TranspositionTable_clear_cases)

lemma probe_outcome:
  "probe entry t k \<noteq> Exit code msg" "probe entry t k \<noteq> AssertionFailure"
  "probe entry t k \<noteq> Terminate" "probe entry t k \<noteq> SystemError"
  "probe entry t k = OutOfBounds \<longleftrightarrow> \<not> entry (entryCount t) k < length (table t)"
  by (simp_all add: probe_def Let_def)

lemma hashfull_outcome:
  "hashfull t \<noteq> Exit code msg" "hashfull t \<noteq> AssertionFailure"
  "hashfull t \<noteq> Terminate" "hashfull t \<noteq> SystemError"
  "hashfull t = OutOfBounds \<longleftrightarrow> length (table t) < 1000"
  by (simp_all add: hashfull_def)

lemma save_outcome:
  "save P gen e k v b d m \<noteq> Exit code msg" "save P gen e k v b d m \<noteq> OutOfBounds"
  "save P gen e k v b d m \<noteq> Terminate" "save P gen e k v b d m \<noteq> SystemError"
  "save P gen e k v b d m = AssertionFailure \<longleftrightarrow> cdiv d P * P \<noteq> d"
  by (simp_all add: save_def Let_def)

lemma bind_Return_outcome:
  "outcome_bind x (\<lambda>y. Return (f y)) = Exit code msg \<longleftrightarrow> x = Exit code msg"
  "outcome_bind x (\<lambda>y. Return (f y)) = AssertionFailure \<longleftrightarrow> x = AssertionFailure"
  "outcome_bind x (\<lambda>y. Return (f y)) = Terminate \<longleftrightarrow> x = Terminate"
  "outcome_bind x (\<lambda>y. Return (f y)) = SystemError \<longleftrightarrow> x = SystemError"
  "outcome_bind x (\<lambda>y. Return (f y)) = OutOfBounds \<longleftrightarrow> x = OutOfBounds"
  by (cases x; simp)+

lemma save_at_outcome:
  "save_at P t p k v b d m \<noteq> Exit code msg"
  "save_at P t p k v b d m \<noteq> Terminate"
  "save_at P t p k v b d m \<noteq> SystemError"
  "save_at P t p k v b d m = AssertionFailure \<longleftrightarrow> cdiv d P * P \<noteq> d"
  "save_at P t p k v b d m = OutOfBounds \<longleftrightarrow> cdiv d P * P = d \<and> \<not> p < length (table t)"
  by (auto simp: save_at_def bind_Return_outcome save_outcome)

text \<open>
  C10 (as amended). For every megabyte size \<open>m\<close>, if the allocation inside \<open>resize(m)\<close>
  fails, \<open>resize\<close> does not return: the process exits with the failure status (not 0)
  after the text \<open>Failed to allocate mMB for transposition table.\<close>, where \<open>m\<close> is the
  requested size in decimal, has gone to the error stream; the allocator is asked once.
  An exit happens in no other call. The other ways a call of \<open>resize\<close>, \<open>clear\<close>, \<open>probe\<close>,
  \<open>save\<close> or \<open>hashfull\<close> can fail to return are exactly these: \<open>save\<close> aborts on its
  assertion when the depth is no multiple of the ply unit; \<open>clear\<close>, also when \<open>resize\<close>
  calls it after a granted allocation, ends the process through \<open>std::terminate\<close> when a
  worker thread other than the first cannot be started, and lets \<open>std::system_error\<close>
  escape when the first cannot; and touching an entry outside the table (a \<open>probe\<close> or
  \<open>save\<close> there, \<open>hashfull\<close> on fewer than 1000 entries) is undefined. In particular
  \<open>probe\<close> and \<open>hashfull\<close> never end the process and never report an error.
\<close>

theorem run_abnormal_ends:
  "(malloc (mbSize * 1024 * 1024 div sizeof_TTEntry * sizeof_TTEntry + CacheLineSize - 1) = None
      \<longrightarrow> resize T starts malloc mbSize t
            = Exit EXIT_FAILURE (''Failed to allocate '' @ decimal (unat mbSize)
                                   @ ''MB for transposition table.'' @ [CHR 0x0A])
          \<and> digits_value (decimal (unat mbSize)) = unat mbSize
          \<and> EXIT_FAILURE \<noteq> 0)
   \<and> (run P T starts malloc entry c t = Exit code msg
      \<longleftrightarrow> (\<exists>mb. c = Resize mb
             \<and> malloc (mb * 1024 * 1024 div sizeof_TTEntry * sizeof_TTEntry + CacheLineSize - 1)
                 = None
             \<and> code = EXIT_FAILURE
             \<and> msg = ''Failed to allocate '' @ decimal (unat mb)
                       @ ''MB for transposition table.'' @ [CHR 0x0A]))
   \<and> (run P T starts malloc entry c t = AssertionFailure
      \<longleftrightarrow> (\<exists>p k v b d m. c = Save p k v b d m \<and> cdiv d P * P \<noteq> d))
   \<and> (run P T starts malloc entry c t = Terminate
      \<longleftrightarrow> (c = Clear
           \<or> (\<exists>mb. c = Resize mb
                \<and> malloc (mb * 1024 * 1024 div sizeof_TTEntry * sizeof_TTEntry + CacheLineSize - 1)
                    \<noteq> None))
          \<and> (\<exists>idx < T. \<not> starts idx) \<and> starts 0)
   \<and> (run P T starts malloc entry c t = SystemError
      \<longleftrightarrow> (c = Clear
           \<or> (\<exists>mb. c = Resize mb
                \<and> malloc (mb * 1024 * 1024 div sizeof_TTEntry * sizeof_TTEntry + CacheLineSize - 1)
                    \<noteq> None))
          \<and> 0 < T \<and> \<not> starts 0)
   \<and> (run P T starts malloc entry c t = OutOfBounds
      \<longleftrightarrow> (\<exists>k. c = Probe k \<and> \<not> entry (entryCount t) k < length (table t))
          \<or> (\<exists>p k v b d m. c = Save p k v b d m \<and> cdiv d P * P = d \<and> \<not> p < length (table t))
          \<or> (c = Hashfull \<and> length (table t) < 1000))"
proof (intro conjI impI)
  assume "malloc (mbSize * 1024 * 1024 div sizeof_TTEntry * sizeof_TTEntry + CacheLineSize - 1) = None"
  then show "resize T starts malloc mbSize t
            = Exit EXIT_FAILURE (''Failed to allocate '' @ decimal (unat mbSize)
                                   @ ''MB for transposition table.'' @ [CHR 0x0A])"
    by (simp add: resize_outcome)
  show "digits_value (decimal (unat mbSize)) = unat mbSize"
    by (rule digits_value_decimal)
  show "EXIT_FAILURE \<noteq> 0" by (simp add: EXIT_FAILURE_def)
next
  show "run P T starts malloc entry c t = Exit code msg
      \<longleftrightarrow> (\<exists>mb. c = Resize mb
             \<and> malloc (mb * 1024 * 1024 div sizeof_TTEntry * sizeof_TTEntry + CacheLineSize - 1)
                 = None
             \<and> code = EXIT_FAILURE
             \<and> msg = ''Failed to allocate '' @ decimal (unat mb)
                       @ ''MB for transposition table.'' @ [CHR 0x0A])"
    by (cases c)
       (simp_all add: run_def bind_Return_outcome resize_outcome clear_outcome
          save_at_outcome probe_outcome hashfull_outcome split_def)
next
  show "run P T starts malloc entry c t = AssertionFailure
      \<longleftrightarrow> (\<exists>p k v b d m. c = Save p k v b d m \<and> cdiv d P * P \<noteq> d)"
    by (cases c)
       (simp_all add: run_def bind_Return_outcome resize_outcome clear_outcome
          save_at_outcome probe_outcome hashfull_outcome split_def)
next
  show "run P T starts malloc entry c t = Terminate
      \<longleftrightarrow> (c = Clear
           \<or> (\<exists>mb. c = Resize mb
                \<and> malloc (mb * 1024 * 1024 div sizeof_TTEntry * sizeof_TTEntry + CacheLineSize - 1)
                    \<noteq> None))
          \<and> (\<exists>idx < T. \<not> starts idx) \<and> starts 0"
    by (cases c)
       (simp_all add: run_def bind_Return_outcome resize_outcome clear_outcome
          save_at_outcome probe_outcome hashfull_outcome split_def)
next
  show "run P T starts malloc entry c t = SystemError
      \<longleftrightarrow> (c = Clear
           \<or> (\<exists>mb. c = Resize mb
                \<and> malloc (mb * 1024 * 1024 div sizeof_TTEntry * sizeof_TTEntry + CacheLineSize - 1)
                    \<noteq> None))
          \<and> 0 < T \<and> \<not> starts 0"
    by (cases c)
       (simp_all add: run_def bind_Return_outcome resize_outcome clear_outcome
          save_at_outcome probe_outcome hashfull_outcome split_def)
next
  show "run P T starts malloc entry c t = OutOfBounds
      \<longleftrightarrow> (\<exists>k. c = Probe k \<and> \<not> entry (entryCount t) k < length (table t))
          \<or> (\<exists>p k v b d m. c = Save p k v b d m \<and> cdiv d P * P = d \<and> \<not> p < length (table t))
          \<or> (c = Hashfull \<and> length (table t) < 1000)"
    by (cases c)
       (simp_all add: run_def bind_Return_outcome resize_outcome clear_outcome
          save_at_outcome probe_outcome hashfull_outcome split_def)
qed

theorem run_abnormal_ends_witness:
  "resize 2 (\<lambda>idx. True) (\<lambda>n. None) 16 \<lparr>entryCount = 0, table = [], generation8 = 0\<rparr>
     = Exit 1 (''Failed to allocate 16MB for transposition table.'' @ [CHR 0x0A])
   \<and> digits_value ''16'' = 16"
proof -
  have "(\<lambda>n :: size_t. None :: (nat \<Rightarrow> TTEntry) option)
          (16 * 1024 * 1024 div sizeof_TTEntry * sizeof_TTEntry + CacheLineSize - 1) = None"
    by simp
  then have "resize 2 (\<lambda>idx. True) (\<lambda>n. None) 16
               \<lparr>entryCount = 0, table = [], generation8 = 0\<rparr>
       = Exit EXIT_FAILURE (''Failed to allocate '' @ decimal (unat (16 :: size_t))
                              @ ''MB for transposition table.'' @ [CHR 0x0A])
     \<and> digits_value (decimal (unat (16 :: size_t))) = unat (16 :: size_t)"
    using run_abnormal_ends
      [where malloc = "\<lambda>n. None" and mbSize = 16 and T = 2 and starts = "\<lambda>idx. True"
         and t = "\<lparr>entryCount = 0, table = [], generation8 = 0\<rparr>"]
    by blast
  then show ?thesis
    by (simp add: EXIT_FAILURE_def decimal.simps)
qed

text \<open>
  As first stated, claim C10 lets no operation but the failed allocation end the process.
  With two worker threads of which the second cannot be started, \<open>clear\<close> has one
  joinable worker in its vector when the exception passes, and the process ends in
  \<open>std::terminate\<close>.
\<close>

theorem clear_terminates_process:
  "run 1 2 (\<lambda>idx. idx = 0) (\<lambda>n. None) entry_mulhi Clear
     \<lparr>entryCount = 2, table = [TTEntry_zero, TTEntry_zero], generation8 = 4\<rparr> = Terminate"
proof -
  have "\<exists>idx < (2 :: nat). idx \<noteq> 0" by (rule exI [of _ 1]) simp
  then show ?thesis by (simp add: run_def TranspositionTable_clear_cases)
qed

text \<open>
  The assertion of \<open>save\<close> is the other case: with a ply unit of 2, a depth of 3 aborts.
\<close>

lemma save_assertion_aborts:
  "run 2 1 (\<lambda>idx. True) (\<lambda>n. None) entry_mulhi
     (Save 0 (push_bit 48 1) 100 BOUND_EXACT 3 77)
     \<lparr>entryCount = 2, table = [TTEntry_zero, TTEntry_zero], generation8 = 4\<rparr>
     = AssertionFailure"
  by (simp add: run_def save_at_def cdiv_def)

end
